theory Spec2Isabelle
  imports Main "HOL-Library.Sublist"
begin

section \<open>Python strings\<close>

text \<open>
  A Python \<open>str\<close> is a sequence of code points. The model uses \<open>string\<close> and reads each
  \<open>char\<close> as one code point in the range 0..255, so \<open>length\<close> counts code points as
  Python's \<open>len\<close> does. The character classes below are the ones Python uses on that range.
\<close>

definition isspace :: "char \<Rightarrow> bool" where
  \<comment> \<open>\<open>str.isspace\<close> on one code point: TAB..CR, FS..US, SPACE, NEL, NBSP.\<close>
  "isspace c = (let n = (of_char c :: nat) in
     (9 \<le> n \<and> n \<le> 13) \<or> (28 \<le> n \<and> n \<le> 32) \<or> n = 133 \<or> n = 160)"

definition isupper :: "char \<Rightarrow> bool" where
  \<comment> \<open>code points with a lower-case partner: A..Z and U+00C0..U+00DE without U+00D7.\<close>
  "isupper c = (let n = (of_char c :: nat) in
     (65 \<le> n \<and> n \<le> 90) \<or> (192 \<le> n \<and> n \<le> 222 \<and> n \<noteq> 215))"

definition islower :: "char \<Rightarrow> bool" where
  \<comment> \<open>code points whose upper-case partner is again a single code point below 256:
      a..z and U+00E0..U+00FE without U+00F7.\<close>
  "islower c = (let n = (of_char c :: nat) in
     (97 \<le> n \<and> n \<le> 122) \<or> (224 \<le> n \<and> n \<le> 254 \<and> n \<noteq> 247))"

definition lower_char :: "char \<Rightarrow> char" where
  \<comment> \<open>the partner of an upper-case code point is 32 above it: bit 5 is set.\<close>
  "lower_char c = (if isupper c
     then (case c of Char b0 b1 b2 b3 b4 b5 b6 b7 \<Rightarrow> Char b0 b1 b2 b3 b4 True b6 b7)
     else c)"

definition upper_char :: "char \<Rightarrow> char" where
  \<comment> \<open>the partner of a lower-case code point is 32 below it: bit 5 is cleared.\<close>
  "upper_char c = (if islower c
     then (case c of Char b0 b1 b2 b3 b4 b5 b6 b7 \<Rightarrow> Char b0 b1 b2 b3 b4 False b6 b7)
     else c)"

definition lower :: "string \<Rightarrow> string" where
  \<comment> \<open>\<open>str.lower()\<close>\<close>
  "lower s = map lower_char s"

definition upper :: "string \<Rightarrow> string" where
  \<comment> \<open>\<open>str.upper()\<close>. The program applies it only to the result of
      \<open>sanitize_for_filename\<close>, which holds ASCII code points only; there the definition is
      exact. (U+00B5, U+00DF and U+00FF, whose upper case leaves the range, stay as they are.)\<close>
  "upper s = map upper_char s"

definition strip :: "string \<Rightarrow> string" where
  \<comment> \<open>\<open>str.strip()\<close>: white space removed at both ends.\<close>
  "strip s = rev (dropWhile isspace (rev (dropWhile isspace s)))"

definition replace :: "char \<Rightarrow> char \<Rightarrow> string \<Rightarrow> string" where
  \<comment> \<open>\<open>str.replace(old, new)\<close> for one-character \<open>old\<close> and \<open>new\<close>.\<close>
  "replace old new s = map (\<lambda>c. if c = old then new else c) s"

definition endswith :: "string \<Rightarrow> string \<Rightarrow> bool" where
  \<comment> \<open>\<open>s.endswith(suffix)\<close>\<close>
  "endswith s suff =
     (length suff \<le> length s \<and> drop (length s - length suff) s = suff)"

fun split_from :: "char \<Rightarrow> string \<Rightarrow> string \<Rightarrow> string list" where
  "split_from sep cur [] = [cur]"
| "split_from sep cur (c # cs) =
     (if c = sep then cur # split_from sep [] cs else split_from sep (cur @ [c]) cs)"

definition split :: "char \<Rightarrow> string \<Rightarrow> string list" where
  \<comment> \<open>\<open>s.split(sep)\<close> for a one-character separator: the pieces between the separators,
      never an empty list.\<close>
  "split sep s = split_from sep [] s"

definition rpartition :: "char \<Rightarrow> string \<Rightarrow> string \<times> string \<times> string" where
  \<comment> \<open>\<open>s.rpartition(sep)\<close> for a one-character separator: the split is at the last
      occurrence; without one the result is \<open>('', '', s)\<close>.\<close>
  "rpartition sep s =
     (if sep \<in> set s
      then (let after = rev (takeWhile (\<lambda>c. c \<noteq> sep) (rev s))
            in (take (length s - length after - 1) s, [sep], after))
      else ([], [], s))"

definition digit_char :: "nat \<Rightarrow> char" where
  "digit_char d =
     (if d = 0 then CHR ''0'' else if d = 1 then CHR ''1'' else if d = 2 then CHR ''2''
      else if d = 3 then CHR ''3'' else if d = 4 then CHR ''4'' else if d = 5 then CHR ''5''
      else if d = 6 then CHR ''6'' else if d = 7 then CHR ''7'' else if d = 8 then CHR ''8''
      else CHR ''9'')"

fun str_nat :: "nat \<Rightarrow> string" where
  \<comment> \<open>\<open>str(n)\<close> of a non-negative integer, as the f-string renders \<open>{counter}\<close>.\<close>
  "str_nat n = (if n < 10 then [digit_char n] else str_nat (n div 10) @ [digit_char (n mod 10)])"

declare str_nat.simps [simp del]

section \<open>File names\<close>

definition allowed_char :: "char \<Rightarrow> bool" where
  \<comment> \<open>the class \<open>[A-Za-z0-9_\-]\<close> of the sanitizer's regular expression.\<close>
  "allowed_char c = (let n = (of_char c :: nat) in
     (65 \<le> n \<and> n \<le> 90) \<or> (97 \<le> n \<and> n \<le> 122) \<or> (48 \<le> n \<and> n \<le> 57)
     \<or> c = CHR ''_'' \<or> c = CHR ''-'')"

definition re_sub_disallowed :: "string \<Rightarrow> string" where
  \<comment> \<open>\<open>re.sub(r"[^A-Za-z0-9_\-]+", "", text)\<close>: every maximal run of characters outside
      the class is replaced by nothing, which leaves the characters of the class in order.\<close>
  "re_sub_disallowed s = filter allowed_char s"

definition sanitize_for_filename :: "string \<Rightarrow> string" where
  "sanitize_for_filename text =
     (if text = [] then ''UNKNOWN''
      else (let text1 = replace CHR '' '' CHR ''_'' (strip text);
                text2 = re_sub_disallowed text1
            in if text2 = [] then ''UNKNOWN'' else text2))"

definition date_part_of :: "string \<Rightarrow> string" where
  \<comment> \<open>\<open>publication_iso.split("T")[0] if publication_iso else "UNKNOWN_DATE"\<close>\<close>
  "date_part_of publication_iso =
     (if publication_iso \<noteq> [] then hd (split CHR ''T'' publication_iso) else ''UNKNOWN_DATE'')"

definition build_output_filename :: "string \<Rightarrow> string \<Rightarrow> string \<Rightarrow> string" where
  "build_output_filename company_name lei publication_iso =
     (let company_part = upper (sanitize_for_filename company_name);
          lei_part = sanitize_for_filename lei;
          date_part = date_part_of publication_iso
      in company_part @ ''_'' @ lei_part @ ''_AnnualReport_'' @ date_part @ ''.pdf'')"

definition filename_char :: "char \<Rightarrow> bool" where
  \<comment> \<open>the class \<open>[A-Za-z0-9_.-]\<close>: the sanitizer's class and the dot of the extension.\<close>
  "filename_char c = (allowed_char c \<or> c = CHR ''.'')"

section \<open>Data model\<close>

text \<open>
  The JSON objects the program reads are dictionaries accessed with \<open>.get(key)\<close>, which
  gives \<open>None\<close> for a missing key and for a JSON \<open>null\<close> alike: a field is an option,
  \<open>None\<close> standing for both. Only \<open>issuer["companyId"]\<close> is a subscript, which raises
  \<open>KeyError\<close> on a missing key: there \<open>None\<close> is the missing key. A field that is
  present holds a value of the type the specification's data model gives it (a string, a list
  of documents, a list of filing items); a response with a value of another type there, or a
  null \<open>companyId\<close>, is outside the model.
\<close>

record document_ref =
  fileType :: "string option"
  language :: "string option"
  originalFileName :: "string option"
  fileDataId :: "string option"

record filing_item =
  companyName :: "string option"
  lei :: "string option"
  datePublication :: "string option"
  mainDocuments :: "document_ref list option"
  attachments :: "document_ref list option"

record search_result =
  resultCount :: "int option"
  storiResultItems :: "filing_item list option"

record search_payload =
  startRowIndex :: int
  pageSize :: int
  sortDirection :: string
  documentTypeId :: string
  isDocumentTypeGroup :: bool
  publicationStart :: string
  companyId :: string

record raw_issuer =
  raw_companyId :: "string option"
  raw_companyNumber :: "string option"
  raw_localisedName :: "string option"
  raw_abbreviation :: "string option"
  raw_lei :: "string option"

record issuer =
  issuer_id :: string
  issuer_name :: string

datatype error =
    RequestException    \<comment> \<open>network failure, timeout or HTTP error status\<close>
  | JSONDecodeError     \<comment> \<open>a body that is not JSON\<close>
  | KeyError string     \<comment> \<open>a subscript on a missing key\<close>

datatype event =
    SearchRequest search_payload   \<comment> \<open>POST to the result endpoint\<close>
  | DownloadRequest string         \<comment> \<open>GET of the download endpoint with this fileDataId\<close>
  | MakeDir string                 \<comment> \<open>\<open>mkdir(exist_ok=True)\<close>\<close>
  | WriteFile string string        \<comment> \<open>path and content written\<close>

text \<open>
  The state of a run: the files that exist, by path, with their content (the head of the list
  is the latest write), and the requests and writes made so far, oldest first. Directory
  creation and writes are taken to succeed. Logging is left out.
\<close>

record world =
  files :: "(string \<times> string) list"
  trace :: "event list"

text \<open>
  What the program cannot decide: the answers of the remote API, which may depend on
  everything done before, and the JSON codec for the issuer cache.
\<close>

record env =
  http_post_json :: "event list \<Rightarrow> string \<Rightarrow> search_payload \<Rightarrow> error + search_result"
  http_get :: "event list \<Rightarrow> string \<Rightarrow> string \<Rightarrow> error + string"
  json_loads :: "string \<Rightarrow> error + raw_issuer list"
  json_dumps :: "raw_issuer list \<Rightarrow> string"

definition or_else :: "'a list option \<Rightarrow> 'a list \<Rightarrow> 'a list" where
  \<comment> \<open>Python's \<open>v or default\<close> on a string or a list that may be \<open>None\<close>: \<open>None\<close> and the
      empty value are both falsy.\<close>
  "or_else v dflt = (case v of None \<Rightarrow> dflt | Some x \<Rightarrow> if x = [] then dflt else x)"

definition path_exists :: "world \<Rightarrow> string \<Rightarrow> bool" where
  "path_exists w p = (map_of (files w) p \<noteq> None)"

definition write_file :: "string \<Rightarrow> string \<Rightarrow> world \<Rightarrow> world" where
  \<comment> \<open>\<open>Path.write_bytes\<close> and \<open>Path.write_text\<close>\<close>
  "write_file p content w = w\<lparr>files := (p, content) # files w, trace := trace w @ [WriteFile p content]\<rparr>"

definition mkdir :: "string \<Rightarrow> world \<Rightarrow> world" where
  "mkdir d w = w\<lparr>trace := trace w @ [MakeDir d]\<rparr>"

definition path_join :: "string \<Rightarrow> string \<Rightarrow> string" where
  \<comment> \<open>\<open>Path(d) / name\<close>\<close>
  "path_join d name = d @ ''/'' @ name"

section \<open>api_client.py\<close>

definition STORI_RESULT_ENDPOINT :: string where
  "STORI_RESULT_ENDPOINT = ''/api/v1/en/stori/result''"

definition STORI_DOWNLOAD_ENDPOINT :: string where
  "STORI_DOWNLOAD_ENDPOINT = ''/api/v1/en/stori/download''"

definition post_json :: "env \<Rightarrow> event list \<Rightarrow> string \<Rightarrow> search_payload \<Rightarrow> error + search_result" where
  \<comment> \<open>every failure is logged and raised again\<close>
  "post_json E hist path json_body = http_post_json E hist path json_body"

definition fetch_stori_results :: "env \<Rightarrow> event list \<Rightarrow> search_payload \<Rightarrow> error + search_result" where
  "fetch_stori_results E hist payload = post_json E hist STORI_RESULT_ENDPOINT payload"

definition download_file :: "env \<Rightarrow> event list \<Rightarrow> string \<Rightarrow> error + string" where
  "download_file E hist file_data_id = http_get E hist STORI_DOWNLOAD_ENDPOINT file_data_id"

section \<open>Issuer list\<close>

fun normalize_loop :: "raw_issuer list \<Rightarrow> issuer list \<Rightarrow> error + issuer list" where
  "normalize_loop [] issuers = Inr issuers"
| "normalize_loop (r # raw) issuers =
     (case raw_companyId r of
        None \<Rightarrow> Inl (KeyError ''companyId'')
      | Some cid \<Rightarrow>
          normalize_loop raw
            (issuers @ [\<lparr>issuer_id = cid, issuer_name = or_else (raw_abbreviation r) ''UNKNOWN''\<rparr>]))"

definition normalize_issuer_list :: "raw_issuer list \<Rightarrow> error + issuer list" where
  "normalize_issuer_list raw = normalize_loop raw []"

definition default_raw :: "raw_issuer list" where
  "default_raw =
     [\<lparr>raw_companyId = Some ''02285e3c-71e9-496a-8d47-d1408131c44b'',
       raw_companyNumber = None,
       raw_localisedName = None,
       raw_abbreviation = Some ''ACACIA PHARMA GROUP'',
       raw_lei = None\<rparr>]"

definition ensure_issuer_file :: "env \<Rightarrow> string \<Rightarrow> world \<Rightarrow> (error + issuer list) \<times> world" where
  "ensure_issuer_file E path w =
     (case map_of (files w) path of
        Some text \<Rightarrow>
          (case json_loads E text of
             Inl e \<Rightarrow> (Inl e, w)
           | Inr raw \<Rightarrow> (normalize_issuer_list raw, w))
      | None \<Rightarrow> (normalize_issuer_list default_raw, write_file path (json_dumps E default_raw) w))"

section \<open>Resolving name collisions\<close>

text \<open>
  The version loop below ends because the candidate paths of distinct counters differ, which
  rests on \<open>str\<close> being injective: a number is read back from its decimal digits.
\<close>

definition digit_val :: "char \<Rightarrow> nat" where
  "digit_val c = of_char c - 48"

definition parse_nat :: "string \<Rightarrow> nat" where
  "parse_nat s = foldl (\<lambda>a c. 10 * a + digit_val c) 0 s"

lemma digit_val_digit_char: "d < 10 \<Longrightarrow> digit_val (digit_char d) = d"
  by (simp add: digit_val_def digit_char_def)

lemma parse_nat_str_nat: "parse_nat (str_nat n) = n"
proof (induction n rule: str_nat.induct)
  case (1 n)
  show ?case
  proof (cases "n < 10")
    case True
    then show ?thesis by (simp add: str_nat.simps[of n] parse_nat_def digit_val_digit_char)
  next
    case False
    then have "parse_nat (str_nat (n div 10)) = n div 10" using 1 by simp
    then show ?thesis using False
      by (simp add: str_nat.simps[of n] parse_nat_def digit_val_digit_char)
  qed
qed

lemma str_nat_inj: "str_nat m = str_nat n \<Longrightarrow> m = n"
  by (metis parse_nat_str_nat)

definition DOWNLOADS_DIR :: string where
  "DOWNLOADS_DIR = ''downloads''"

definition versioned_path :: "string \<Rightarrow> string \<Rightarrow> nat \<Rightarrow> string" where
  "versioned_path stem ext counter =
     path_join DOWNLOADS_DIR (stem @ ''_v'' @ str_nat counter @ ''.'' @ ext)"

lemma versioned_path_inj: "versioned_path stem ext m = versioned_path stem ext n \<Longrightarrow> m = n"
  by (simp add: versioned_path_def path_join_def str_nat_inj)

lemma finite_versions: "finite {j. path_exists w (versioned_path stem ext j)}"
proof -
  have "{j. path_exists w (versioned_path stem ext j)} = versioned_path stem ext -` (fst ` set (files w))"
    by (auto simp: path_exists_def map_of_eq_None_iff)
  moreover have "inj (versioned_path stem ext)" by (auto intro: injI versioned_path_inj)
  ultimately show ?thesis by (simp add: finite_vimageI)
qed

definition pending :: "world \<Rightarrow> string \<Rightarrow> string \<Rightarrow> nat \<Rightarrow> nat" where
  "pending w stem ext counter = card {j. counter \<le> j \<and> path_exists w (versioned_path stem ext j)}"

lemma pending_step:
  "pending w stem ext counter =
     (if path_exists w (versioned_path stem ext counter) then 1 else 0) + pending w stem ext (Suc counter)"
proof -
  let ?A = "{j. counter \<le> j \<and> path_exists w (versioned_path stem ext j)}"
  let ?B = "{j. Suc counter \<le> j \<and> path_exists w (versioned_path stem ext j)}"
  have fin: "finite ?B" by (rule finite_subset[OF _ finite_versions[of w stem ext]]) auto
  show ?thesis
  proof (cases "path_exists w (versioned_path stem ext counter)")
    case True
    then have "?A = insert counter ?B" by (auto simp: le_Suc_eq)
    moreover have "counter \<notin> ?B" by simp
    ultimately show ?thesis using True fin by (simp add: pending_def)
  next
    case False
    then have "?A = ?B" by (auto simp: Suc_le_eq order_le_less)
    then show ?thesis using False by (simp add: pending_def)
  qed
qed

function version_loop :: "world \<Rightarrow> string \<Rightarrow> string \<Rightarrow> string \<Rightarrow> nat \<Rightarrow> string" where
  "version_loop w stem ext output_path counter =
     (if path_exists w output_path
      then version_loop w stem ext (versioned_path stem ext counter) (counter + 1)
      else output_path)"
  by pat_completeness auto
termination
proof (relation "measure (\<lambda>(w, stem, ext, output_path, counter).
        (if path_exists w output_path then 1 else 0) + pending w stem ext counter)")
  show "wf (measure (\<lambda>(w, stem, ext, output_path, counter).
        (if path_exists w output_path then 1 else 0) + pending w stem ext counter))"
    by simp
next
  fix w :: world and stem ext output_path :: string and counter :: nat
  assume "path_exists w output_path"
  then show "((w, stem, ext, versioned_path stem ext counter, counter + 1),
              (w, stem, ext, output_path, counter))
        \<in> measure (\<lambda>(w, stem, ext, output_path, counter).
        (if path_exists w output_path then 1 else 0) + pending w stem ext counter)"
    using pending_step[of w stem ext counter] by simp
qed

declare version_loop.simps [simp del]

definition resolve_output_path :: "world \<Rightarrow> string \<Rightarrow> string" where
  \<comment> \<open>the path the bytes are written to: the base path, or, when a file exists there, the
      result of the version loop. Every test of existence reads the files of the world.\<close>
  "resolve_output_path w output_name =
     (let output_path = path_join DOWNLOADS_DIR output_name
      in if path_exists w output_path
         then (case rpartition CHR ''.'' output_name of
                 (stem, dot, ext) \<Rightarrow> version_loop w stem ext output_path 2)
         else output_path)"

section \<open>Downloads of one issuer\<close>

definition select_document :: "document_ref \<Rightarrow> string option" where
  \<comment> \<open>the three tests of the inner loop's body, in the source's order: \<open>None\<close> where one of
      them runs \<open>continue\<close>, the fileDataId to download otherwise.\<close>
  "select_document doc =
     (let file_type = lower (or_else (fileType doc) []);
          lang = lower (or_else (language doc) []);
          original_name = lower (or_else (originalFileName doc) [])
      in if lang \<notin> set [''en'', ''nl''] then None
         else if file_type \<noteq> ''pdf'' \<and> \<not> endswith original_name ''.pdf'' then None
         else (case fileDataId doc of
                 None \<Rightarrow> None
               | Some file_data_id \<Rightarrow> if file_data_id = [] then None else Some file_data_id))"

fun documents_loop ::
  "env \<Rightarrow> string \<Rightarrow> string \<Rightarrow> string \<Rightarrow> int \<Rightarrow> document_ref list \<Rightarrow> int \<Rightarrow> world
     \<Rightarrow> (error + int) \<times> world" where
  "documents_loop E company_name lei_v publication_iso MAX' [] download_count w =
     (Inr download_count, w)"
| "documents_loop E company_name lei_v publication_iso MAX' (doc # documents) download_count w =
     (if download_count \<ge> MAX' then (Inr download_count, w)
      else (case select_document doc of
              None \<Rightarrow>
                documents_loop E company_name lei_v publication_iso MAX' documents download_count w
            | Some file_data_id \<Rightarrow>
                (let output_name = build_output_filename company_name lei_v publication_iso;
                     output_path = resolve_output_path w output_name;
                     w1 = w\<lparr>trace := trace w @ [DownloadRequest file_data_id]\<rparr>
                 in case download_file E (trace w) file_data_id of
                      Inl e \<Rightarrow> (Inl e, w1)
                    | Inr file_bytes \<Rightarrow>
                        documents_loop E company_name lei_v publication_iso MAX' documents
                          (download_count + 1) (write_file output_path file_bytes w1))))"

definition item_documents :: "filing_item \<Rightarrow> document_ref list" where
  "item_documents item = or_else (mainDocuments item) [] @ or_else (attachments item) []"

fun items_loop :: "env \<Rightarrow> int \<Rightarrow> filing_item list \<Rightarrow> int \<Rightarrow> world \<Rightarrow> (error + int) \<times> world" where
  "items_loop E MAX' [] download_count w = (Inr download_count, w)"
| "items_loop E MAX' (item # items) download_count w =
     (if download_count \<ge> MAX' then (Inr download_count, w)
      else (let company_name = or_else (companyName item) ''UNKNOWN_COMPANY'';
                lei_v = or_else (lei item) ''NO_LEI'';
                publication_iso = or_else (datePublication item) ''UNKNOWN_DATE'';
                documents = item_documents item
            in case documents_loop E company_name lei_v publication_iso MAX' documents
                      download_count w of
                 (Inl e, w') \<Rightarrow> (Inl e, w')
               | (Inr download_count', w') \<Rightarrow> items_loop E MAX' items download_count' w'))"

definition make_search_payload :: "string \<Rightarrow> string \<Rightarrow> string \<Rightarrow> search_payload" where
  "make_search_payload company_id document_type_id publication_start =
     \<lparr>startRowIndex = 0, pageSize = 50, sortDirection = ''Ascending'',
      documentTypeId = document_type_id, isDocumentTypeGroup = False,
      publicationStart = publication_start, companyId = company_id\<rparr>"

definition download_for_issuer ::
  "env \<Rightarrow> string \<Rightarrow> string \<Rightarrow> string \<Rightarrow> int \<Rightarrow> int \<Rightarrow> world \<Rightarrow> (error + int) \<times> world" where
  "download_for_issuer E company_id document_type_id publication_start max_downloads
       already_downloaded w =
     (if already_downloaded \<ge> max_downloads then (Inr already_downloaded, w)
      else (let payload = make_search_payload company_id document_type_id publication_start;
                w1 = w\<lparr>trace := trace w @ [SearchRequest payload]\<rparr>
            in case fetch_stori_results E (trace w) payload of
                 Inl e \<Rightarrow> (Inl e, w1)
               | Inr results \<Rightarrow>
                   items_loop E max_downloads (or_else (storiResultItems results) [])
                     already_downloaded (mkdir DOWNLOADS_DIR w1)))"

section \<open>The run\<close>

definition DOCUMENT_TYPE_ANNUAL :: string where
  "DOCUMENT_TYPE_ANNUAL = ''9813c451-9fd4-41ba-ba7d-4e0dda0d3051''"

definition MAX_DOWNLOADS :: int where
  "MAX_DOWNLOADS = 5"

definition issuers_file :: string where
  "issuers_file = ''issuers.json.txt''"

fun issuers_loop :: "env \<Rightarrow> int \<Rightarrow> issuer list \<Rightarrow> int \<Rightarrow> world \<Rightarrow> (error + int) \<times> world" where
  \<comment> \<open>the loop of \<open>main\<close>, for any cap\<close>
  "issuers_loop E MAX' [] total_downloads w = (Inr total_downloads, w)"
| "issuers_loop E MAX' (iss # issuers) total_downloads w =
     (if total_downloads \<ge> MAX' then (Inr total_downloads, w)
      else (case download_for_issuer E (issuer_id iss) DOCUMENT_TYPE_ANNUAL ''2011-01-01'' MAX'
                   total_downloads w of
              (Inl e, w') \<Rightarrow> (Inl e, w')
            | (Inr total_downloads', w') \<Rightarrow> issuers_loop E MAX' issuers total_downloads' w'))"

definition main :: "env \<Rightarrow> world \<Rightarrow> (error + int) \<times> world" where
  \<comment> \<open>the result is the total the run reports at its end\<close>
  "main E w =
     (case ensure_issuer_file E issuers_file w of
        (Inl e, w1) \<Rightarrow> (Inl e, w1)
      | (Inr issuers, w1) \<Rightarrow>
          if issuers = [] then (Inr 0, w1) else issuers_loop E MAX_DOWNLOADS issuers 0 w1)"

section \<open>Reading a trace\<close>

fun download_ids :: "event list \<Rightarrow> string list" where
  \<comment> \<open>the fileDataIds of the download requests of a trace, in order\<close>
  "download_ids [] = []"
| "download_ids (DownloadRequest fid # evs) = fid # download_ids evs"
| "download_ids (_ # evs) = download_ids evs"

fun requests_below_cap :: "int \<Rightarrow> int \<Rightarrow> event list \<Rightarrow> bool" where
  \<comment> \<open>\<open>requests_below_cap N c evs\<close>: with \<open>c\<close> downloads requested before, every search
      request and every download request of \<open>evs\<close> is made while fewer than \<open>N\<close> downloads
      have been requested.\<close>
  "requests_below_cap N c [] = True"
| "requests_below_cap N c (SearchRequest p # evs) = (c < N \<and> requests_below_cap N c evs)"
| "requests_below_cap N c (DownloadRequest fid # evs) = (c < N \<and> requests_below_cap N (c + 1) evs)"
| "requests_below_cap N c (_ # evs) = requests_below_cap N c evs"

text \<open>
  What the loops are expected to request, in the specification's words: the documents
  considered are those of the filing items in the order of the response, within an item the
  main documents and then the attachments; the fileDataIds of the selected ones are requested
  in that order, as far as the cap allows.
\<close>

definition selected_ids :: "document_ref list \<Rightarrow> string list" where
  "selected_ids docs = List.map_filter select_document docs"

definition expected_ids :: "filing_item list \<Rightarrow> string list" where
  "expected_ids items = selected_ids (concat (map item_documents items))"

text \<open>
  The effect of a loop that starts in world \<open>w\<close> with the counter at \<open>c\<close> and ends with
  result and world \<open>res\<close>: the trace has grown by some events, all requests among them were
  made below the cap, and a counter that is returned is the old one plus the number of
  downloads requested. \<open>run_effect\<close> adds which downloads were requested.
\<close>

definition cap_effect :: "int \<Rightarrow> int \<Rightarrow> world \<Rightarrow> (error + int) \<times> world \<Rightarrow> bool" where
  "cap_effect N c w res =
     (\<exists>evs. trace (snd res) = trace w @ evs
        \<and> requests_below_cap N c evs
        \<and> (\<forall>c'. fst res = Inr c' \<longrightarrow> c' = c + int (length (download_ids evs))))"

definition run_effect :: "int \<Rightarrow> int \<Rightarrow> string list \<Rightarrow> world \<Rightarrow> (error + int) \<times> world \<Rightarrow> bool" where
  "run_effect N c expected w res =
     (\<exists>evs. trace (snd res) = trace w @ evs
        \<and> requests_below_cap N c evs
        \<and> prefix (download_ids evs) (take (nat (N - c)) expected)
        \<and> (\<forall>c'. fst res = Inr c' \<longrightarrow>
              c' = c + int (length (download_ids evs))
            \<and> download_ids evs = take (nat (N - c)) expected))"


section \<open>Example inputs\<close>

text \<open>
  Concrete inputs at which the theorems below are instantiated: a remote API that answers every
  search with the given filing items and every download with a few bytes, the two documents of
  the specification's filter examples, and a filing item without a publication date.
\<close>

definition example_env :: "filing_item list option \<Rightarrow> env" where
  "example_env items =
     \<lparr>http_post_json = (\<lambda>hist path payload. Inr \<lparr>resultCount = Some 1, storiResultItems = items\<rparr>),
      http_get = (\<lambda>hist path file_data_id. Inr (''%PDF '' @ file_data_id)),
      json_loads = (\<lambda>text. Inr default_raw),
      json_dumps = (\<lambda>raw. ''[default]'')\<rparr>"

definition doc_fr :: document_ref where
  "doc_fr = \<lparr>fileType = Some ''pdf'', language = Some ''FR'', originalFileName = None,
             fileDataId = Some ''x''\<rparr>"

definition doc_en :: document_ref where
  "doc_en = \<lparr>fileType = Some ''docx'', language = Some ''en'', originalFileName = Some ''r.PDF'',
             fileDataId = Some ''x''\<rparr>"

definition empty_world :: world where
  "empty_world = \<lparr>files = [], trace = []\<rparr>"

definition item_no_date :: filing_item where
  "item_no_date = \<lparr>companyName = Some ''Acme'', lei = Some ''L1'', datePublication = None,
                    mainDocuments = Some [doc_en], attachments = None\<rparr>"

definition raw_without_id :: raw_issuer where
  "raw_without_id = \<lparr>raw_companyId = None, raw_companyNumber = None, raw_localisedName = None,
                      raw_abbreviation = Some ''NO ID'', raw_lei = None\<rparr>"

definition cached_world :: world where
  "cached_world = \<lparr>files = [(issuers_file, ''[default]'')], trace = []\<rparr>"

definition doc_main :: document_ref where
  "doc_main = \<lparr>fileType = Some ''pdf'', language = Some ''nl'', originalFileName = Some ''main.pdf'',
               fileDataId = Some ''m1''\<rparr>"

definition doc_att :: document_ref where
  "doc_att = \<lparr>fileType = Some ''PDF'', language = Some ''EN'', originalFileName = None,
              fileDataId = Some ''a1''\<rparr>"

definition item_two :: filing_item where
  "item_two = \<lparr>companyName = Some ''Acacia Pharma Group'', lei = Some ''213800SLDKXWKT6E3381'',
               datePublication = Some ''2022-04-29T10:00:00Z'',
               mainDocuments = Some [doc_main], attachments = Some [doc_fr, doc_att]\<rparr>"

definition two_issuers :: "issuer list" where
  "two_issuers = [\<lparr>issuer_id = ''c1'', issuer_name = ''ONE''\<rparr>,
                  \<lparr>issuer_id = ''c2'', issuer_name = ''TWO''\<rparr>]"

definition crowded_world :: world where
  "crowded_world =
     \<lparr>files = [(''downloads/A_B_AnnualReport_2020-01-01_v2.pdf'', ''second''),
               (''downloads/A_B_AnnualReport_2020-01-01.pdf'', ''first'')],
      trace = []\<rparr>"

section \<open>The sanitizer and the file name\<close>

lemma allowed_not_space: "allowed_char c \<Longrightarrow> \<not> isspace c"
  by (auto simp: allowed_char_def isspace_def Let_def)

lemma allowed_not_blank: "allowed_char c \<Longrightarrow> c \<noteq> CHR '' ''"
  by (auto simp: allowed_char_def)

lemma strip_no_space:
  assumes "list_all (\<lambda>c. \<not> isspace c) s"
  shows "strip s = s"
proof -
  have d: "dropWhile isspace t = t" if "list_all (\<lambda>c. \<not> isspace c) t" for t
    using that by (cases t) auto
  have "list_all (\<lambda>c. \<not> isspace c) (rev s)"
    using assms by (simp add: list_all_iff)
  then show ?thesis
    using assms by (simp add: strip_def d)
qed

lemma replace_absent: "old \<notin> set s \<Longrightarrow> replace old new s = s"
  by (induction s) (auto simp: replace_def)

lemma sanitize_allowed: "list_all allowed_char (sanitize_for_filename s)"
  by (simp add: sanitize_for_filename_def re_sub_disallowed_def Let_def list_all_iff
      allowed_char_def)

lemma sanitize_nonempty: "sanitize_for_filename s \<noteq> []"
  by (simp add: sanitize_for_filename_def Let_def)

lemma sanitize_fixed:
  assumes "s \<noteq> []" and "list_all allowed_char s"
  shows "sanitize_for_filename s = s"
proof -
  have "list_all (\<lambda>c. \<not> isspace c) s"
    using assms(2) by (auto simp: list_all_iff allowed_not_space)
  then have 1: "strip s = s"
    by (rule strip_no_space)
  have "CHR '' '' \<notin> set s"
    using assms(2) allowed_not_blank by (auto simp: list_all_iff)
  then have 2: "replace CHR '' '' CHR ''_'' s = s"
    by (rule replace_absent)
  have 3: "filter allowed_char s = s"
    using assms(2) by (simp add: list_all_iff)
  show ?thesis
    using assms(1) by (simp add: sanitize_for_filename_def 1 2 3 re_sub_disallowed_def)
qed

lemma sanitize_unknown:
  assumes "list_all (\<lambda>c. \<not> allowed_char c \<and> c \<noteq> CHR '' '') (strip y)"
  shows "sanitize_for_filename y = ''UNKNOWN''"
proof -
  have "filter allowed_char (replace CHR '' '' CHR ''_'' (strip y)) = []"
    using assms by (auto simp: replace_def filter_empty_conv list_all_iff)
  then show ?thesis
    by (simp add: sanitize_for_filename_def re_sub_disallowed_def)
qed

lemma split_from_hd: "hd (split_from sep cur s) = cur @ takeWhile (\<lambda>c. c \<noteq> sep) s"
  by (induction s arbitrary: cur) auto

lemma date_part_takeWhile:
  "date_part_of p = (if p = [] then ''UNKNOWN_DATE'' else takeWhile (\<lambda>c. c \<noteq> CHR ''T'') p)"
  by (simp add: date_part_of_def split_def split_from_hd)

lemma upper_char_allowed: "allowed_char c \<Longrightarrow> allowed_char (upper_char c)"
  by (cases c) (auto simp: allowed_char_def upper_char_def islower_def)

lemma upper_char_not_lower:
  "allowed_char c \<Longrightarrow> \<not> (97 \<le> (of_char (upper_char c) :: nat) \<and> (of_char (upper_char c) :: nat) \<le> 122)"
  by (cases c) (auto simp: allowed_char_def upper_char_def islower_def)

lemma endswith_append: "endswith (xs @ suff) suff"
  by (simp add: endswith_def)

lemma company_part_allowed: "list_all allowed_char (upper (sanitize_for_filename s))"
  using sanitize_allowed[of s] by (auto simp: upper_def list_all_iff upper_char_allowed)

lemmas eval_filename =
  build_output_filename_def sanitize_for_filename_def upper_def upper_char_def islower_def
  strip_def replace_def re_sub_disallowed_def allowed_char_def isspace_def date_part_of_def
  split_def

text \<open>
  C4. \<open>build_output_filename\<close> is a function of its three arguments alone (it takes no state,
  so equal arguments give equal results), and its result is the company part, the LEI part,
  the literal \<open>AnnualReport\<close> and the date part joined by underscores, with \<open>.pdf\<close> at the end.
  The company part is the sanitized company name in upper case: it holds no letter
  \<open>a..z\<close>. The LEI part is the sanitized LEI as it is, lower-case letters kept. The
  example of the specification evaluates to the file name the specification gives.
\<close>

theorem build_output_filename_format:
  "build_output_filename company_name lei_v publication_iso =
     upper (sanitize_for_filename company_name) @ ''_'' @ sanitize_for_filename lei_v
       @ ''_AnnualReport_'' @ date_part_of publication_iso @ ''.pdf''
   \<and> list_all (\<lambda>c. \<not> (97 \<le> (of_char c :: nat) \<and> (of_char c :: nat) \<le> 122))
        (upper (sanitize_for_filename company_name))
   \<and> build_output_filename ''Acacia Pharma Group'' ''213800SLDKXWKT6E3381'' ''2022-04-29T10:00:00Z''
       = ''ACACIA_PHARMA_GROUP_213800SLDKXWKT6E3381_AnnualReport_2022-04-29.pdf''
   \<and> build_output_filename ''Acacia Pharma Group'' ''lei-x1'' ''2022-04-29T10:00:00Z''
       = ''ACACIA_PHARMA_GROUP_lei-x1_AnnualReport_2022-04-29.pdf''"
proof -
  have 1: "build_output_filename company_name lei_v publication_iso =
     upper (sanitize_for_filename company_name) @ ''_'' @ sanitize_for_filename lei_v
       @ ''_AnnualReport_'' @ date_part_of publication_iso @ ''.pdf''"
    by (simp add: build_output_filename_def)
  have 2: "list_all (\<lambda>c. \<not> (97 \<le> (of_char c :: nat) \<and> (of_char c :: nat) \<le> 122))
        (upper (sanitize_for_filename company_name))"
    using sanitize_allowed[of company_name]
    by (auto simp: upper_def list_all_iff dest: upper_char_not_lower)
  have 3: "build_output_filename ''Acacia Pharma Group'' ''213800SLDKXWKT6E3381'' ''2022-04-29T10:00:00Z''
       = ''ACACIA_PHARMA_GROUP_213800SLDKXWKT6E3381_AnnualReport_2022-04-29.pdf''"
    by (simp add: eval_filename)
  have 4: "build_output_filename ''Acacia Pharma Group'' ''lei-x1'' ''2022-04-29T10:00:00Z''
       = ''ACACIA_PHARMA_GROUP_lei-x1_AnnualReport_2022-04-29.pdf''"
    by (simp add: eval_filename)
  show ?thesis
    using 1 2 3 4 by blast
qed

text \<open>
  C6, as the code has it. The sanitizer is idempotent. A string yields \<open>UNKNOWN\<close> when,
  once the white space at its two ends is trimmed, it holds no character of \<open>[A-Za-z0-9_-]\<close>
  and no space; the empty string is one. A space inside the string is outside the class too,
  but it is turned into an underscore before the class is applied, and the underscore stays:
  \<open>"! !"\<close> yields \<open>"_"\<close>.
\<close>

theorem sanitize_idempotent_unknown:
  "sanitize_for_filename (sanitize_for_filename x) = sanitize_for_filename x
   \<and> (list_all (\<lambda>c. \<not> allowed_char c \<and> c \<noteq> CHR '' '') (strip x)
        \<longrightarrow> sanitize_for_filename x = ''UNKNOWN'')"
  using sanitize_fixed[OF sanitize_nonempty sanitize_allowed, of x] sanitize_unknown[of x]
  by blast

theorem sanitize_idempotent_unknown_witness:
  "list_all (\<lambda>c. \<not> allowed_char c \<and> c \<noteq> CHR '' '') (strip '' (!?) '')
   \<and> sanitize_for_filename '' (!?) '' = ''UNKNOWN''
   \<and> sanitize_for_filename (sanitize_for_filename '' (!?) '') = sanitize_for_filename '' (!?) ''"
proof -
  have h: "list_all (\<lambda>c. \<not> allowed_char c \<and> c \<noteq> CHR '' '') (strip '' (!?) '')"
    by (simp add: strip_def isspace_def allowed_char_def)
  show ?thesis
    using h sanitize_idempotent_unknown[of "'' (!?) ''"] by blast
qed

theorem sanitize_inner_space_counterexample:
  "\<not> allowed_char CHR ''!'' \<and> \<not> allowed_char CHR '' ''
   \<and> sanitize_for_filename ''! !'' = ''_''
   \<and> sanitize_for_filename ''! !'' \<noteq> ''UNKNOWN''"
  by (simp add: eval_filename)

text \<open>
  C10, as the code has it. The sanitizer returns a non-empty string over \<open>[A-Za-z0-9_-]\<close>.
  The file name is non-empty and ends with \<open>.pdf\<close>. Its company part, its LEI part and its
  fixed parts lie in \<open>[A-Za-z0-9_.-]\<close>; the date part is the time stamp up to its first
  \<open>T\<close>, copied as it is, so the whole name lies in \<open>[A-Za-z0-9_.-]\<close> exactly when the
  date part does. A time stamp \<open>2022/04/29 10:00\<close> puts a slash and a space into the name.
\<close>

theorem filename_characters:
  "sanitize_for_filename s \<noteq> []
   \<and> list_all allowed_char (sanitize_for_filename s)
   \<and> build_output_filename company_name lei_v publication_iso \<noteq> []
   \<and> endswith (build_output_filename company_name lei_v publication_iso) ''.pdf''
   \<and> (list_all filename_char (build_output_filename company_name lei_v publication_iso)
        \<longleftrightarrow> list_all filename_char (date_part_of publication_iso))"
proof -
  have c: "list_all filename_char (upper (sanitize_for_filename company_name))"
    using company_part_allowed[of company_name] by (auto simp: list_all_iff filename_char_def)
  have l: "list_all filename_char (sanitize_for_filename lei_v)"
    using sanitize_allowed[of lei_v] by (auto simp: list_all_iff filename_char_def)
  have f: "list_all filename_char ''_''" "list_all filename_char ''_AnnualReport_''"
    "list_all filename_char ''.pdf''"
    by (simp_all add: filename_char_def allowed_char_def)
  have 1: "list_all filename_char (build_output_filename company_name lei_v publication_iso)
        \<longleftrightarrow> list_all filename_char (date_part_of publication_iso)"
    using c l f by (simp add: build_output_filename_def)
  have "build_output_filename company_name lei_v publication_iso =
      (upper (sanitize_for_filename company_name) @ ''_'' @ sanitize_for_filename lei_v
        @ ''_AnnualReport_'' @ date_part_of publication_iso) @ ''.pdf''"
    by (simp add: build_output_filename_def)
  then have 2: "endswith (build_output_filename company_name lei_v publication_iso) ''.pdf''"
    by (simp only: endswith_append)
  have 3: "build_output_filename company_name lei_v publication_iso \<noteq> []"
    by (simp add: build_output_filename_def)
  show ?thesis
    using 1 2 3 sanitize_nonempty[of s] sanitize_allowed[of s] by blast
qed

theorem filename_characters_witness:
  "list_all filename_char (date_part_of ''2022-04-29T10:00:00Z'')
   \<and> list_all filename_char
        (build_output_filename ''Acacia Pharma Group'' ''213800SLDKXWKT6E3381'' ''2022-04-29T10:00:00Z'')"
proof -
  have h: "list_all filename_char (date_part_of ''2022-04-29T10:00:00Z'')"
    by (simp add: date_part_of_def split_def filename_char_def allowed_char_def)
  show ?thesis
    using h filename_characters[of "''x''" "''Acacia Pharma Group'' " "''213800SLDKXWKT6E3381''"
        "''2022-04-29T10:00:00Z''"]
    by blast
qed

theorem filename_date_counterexample:
  "build_output_filename ''A'' ''B'' ''2022/04/29 10:00'' = ''A_B_AnnualReport_2022/04/29 10:00.pdf''
   \<and> \<not> list_all filename_char (build_output_filename ''A'' ''B'' ''2022/04/29 10:00'')"
  by (simp add: eval_filename filename_char_def)

section \<open>Selecting documents, missing fields and the issuer list\<close>

lemma lower_char_e: "lower_char c = CHR ''e'' \<longleftrightarrow> c = CHR ''e'' \<or> c = CHR ''E''"
  by (cases c) (auto simp: lower_char_def isupper_def)
lemma lower_char_n: "lower_char c = CHR ''n'' \<longleftrightarrow> c = CHR ''n'' \<or> c = CHR ''N''"
  by (cases c) (auto simp: lower_char_def isupper_def)
lemma lower_char_l: "lower_char c = CHR ''l'' \<longleftrightarrow> c = CHR ''l'' \<or> c = CHR ''L''"
  by (cases c) (auto simp: lower_char_def isupper_def)
lemma lower_char_p: "lower_char c = CHR ''p'' \<longleftrightarrow> c = CHR ''p'' \<or> c = CHR ''P''"
  by (cases c) (auto simp: lower_char_def isupper_def)
lemma lower_char_d: "lower_char c = CHR ''d'' \<longleftrightarrow> c = CHR ''d'' \<or> c = CHR ''D''"
  by (cases c) (auto simp: lower_char_def isupper_def)
lemma lower_char_f: "lower_char c = CHR ''f'' \<longleftrightarrow> c = CHR ''f'' \<or> c = CHR ''F''"
  by (cases c) (auto simp: lower_char_def isupper_def)
lemma lower_char_dot: "lower_char c = CHR ''.'' \<longleftrightarrow> c = CHR ''.''"
  by (cases c) (auto simp: lower_char_def isupper_def)

lemmas lower_char_iffs = lower_char_e lower_char_n lower_char_l lower_char_p lower_char_d
  lower_char_f lower_char_dot

lemma map_eq_rel: "map f s = t \<longleftrightarrow> list_all2 (\<lambda>a b. f a = b) s t"
proof -
  have "map f s = t \<longleftrightarrow> list_all2 (=) (map f s) t"
    by (simp add: list.rel_eq)
  then show ?thesis
    by (simp add: list.rel_map)
qed

lemma lower_eq_2: "lower s = [x, y] \<longleftrightarrow> (\<exists>a b. s = [a, b] \<and> lower_char a = x \<and> lower_char b = y)"
  unfolding lower_def map_eq_rel by (auto simp: list_all2_Cons2)

lemma lower_eq_3: "lower s = [x, y, z] \<longleftrightarrow>
    (\<exists>a b c. s = [a, b, c] \<and> lower_char a = x \<and> lower_char b = y \<and> lower_char c = z)"
  unfolding lower_def map_eq_rel by (auto simp: list_all2_Cons2)

lemma lower_eq_4: "lower s = [x, y, z, u] \<longleftrightarrow>
    (\<exists>a b c d. s = [a, b, c, d] \<and> lower_char a = x \<and> lower_char b = y \<and> lower_char c = z
       \<and> lower_char d = u)"
  unfolding lower_def map_eq_rel by (auto simp: list_all2_Cons2)

lemma endswith_iff: "endswith s suff \<longleftrightarrow> (\<exists>pre. s = pre @ suff)"
proof
  assume "endswith s suff"
  then have d: "drop (length s - length suff) s = suff"
    by (simp add: endswith_def)
  have "s = take (length s - length suff) s @ drop (length s - length suff) s"
    by simp
  then have "s = take (length s - length suff) s @ suff"
    by (simp only: d)
  then show "\<exists>pre. s = pre @ suff" ..
next
  assume "\<exists>pre. s = pre @ suff"
  then show "endswith s suff"
    by (auto simp: endswith_def)
qed

lemma lower_eq_append: "lower s = q @ r \<Longrightarrow> \<exists>pre t. s = pre @ t \<and> lower t = r"
  unfolding lower_def map_eq_append_conv by blast

lemma lower_append: "lower (xs @ ys) = lower xs @ lower ys"
  by (simp add: lower_def)

lemma endswith_lower_pdf:
  "endswith (lower s) ''.pdf'' \<longleftrightarrow>
     (\<exists>pre b c d. s = pre @ [CHR ''.'', b, c, d] \<and> lower_char b = CHR ''p''
        \<and> lower_char c = CHR ''d'' \<and> lower_char d = CHR ''f'')"
proof
  assume "endswith (lower s) ''.pdf''"
  then obtain q where q: "lower s = q @ ''.pdf''"
    unfolding endswith_iff ..
  from lower_eq_append[OF q] obtain pre t where pt: "s = pre @ t" "lower t = ''.pdf''"
    by blast
  from pt(2) obtain a b c d where abcd: "t = [a, b, c, d]" "lower_char a = CHR ''.''"
     "lower_char b = CHR ''p''" "lower_char c = CHR ''d''" "lower_char d = CHR ''f''"
    unfolding lower_eq_4 by blast
  from abcd(2) have a: "a = CHR ''.''"
    by (simp only: lower_char_dot)
  have "s = pre @ [CHR ''.'', b, c, d]"
    using pt(1) abcd(1) a by simp
  then show "\<exists>pre b c d. s = pre @ [CHR ''.'', b, c, d] \<and> lower_char b = CHR ''p''
        \<and> lower_char c = CHR ''d'' \<and> lower_char d = CHR ''f''"
    using abcd(3,4,5) by blast
next
  assume "\<exists>pre b c d. s = pre @ [CHR ''.'', b, c, d] \<and> lower_char b = CHR ''p''
        \<and> lower_char c = CHR ''d'' \<and> lower_char d = CHR ''f''"
  then obtain pre b c d where h: "s = pre @ [CHR ''.'', b, c, d]" "lower_char b = CHR ''p''"
     "lower_char c = CHR ''d''" "lower_char d = CHR ''f''"
    by blast
  have "lower_char CHR ''.'' = CHR ''.''"
    by (simp only: lower_char_dot)
  then have "lower [CHR ''.'', b, c, d] = ''.pdf''"
    using h(2,3,4) by (simp add: lower_def)
  then have "lower s = lower pre @ ''.pdf''"
    using h(1) by (simp only: lower_append)
  then show "endswith (lower s) ''.pdf''"
    by (simp only: endswith_append)
qed

lemma or_else_empty_eq: "or_else v [] = x \<longleftrightarrow> (v = None \<and> x = []) \<or> v = Some x"
  by (auto simp: or_else_def split: option.splits)

lemma lang_iff:
  "lower (or_else (language doc) []) \<in> set [''en'', ''nl''] \<longleftrightarrow>
     (\<exists>a b. language doc = Some [a, b] \<and>
      ((a \<in> {CHR ''e'', CHR ''E''} \<and> b \<in> {CHR ''n'', CHR ''N''})
       \<or> (a \<in> {CHR ''n'', CHR ''N''} \<and> b \<in> {CHR ''l'', CHR ''L''})))"
  by (auto simp: lower_eq_2 or_else_empty_eq lower_char_iffs)

lemma file_type_iff:
  "lower (or_else (fileType doc) []) = ''pdf'' \<longleftrightarrow>
     (\<exists>a b c. fileType doc = Some [a, b, c] \<and> a \<in> {CHR ''p'', CHR ''P''}
        \<and> b \<in> {CHR ''d'', CHR ''D''} \<and> c \<in> {CHR ''f'', CHR ''F''})"
  by (auto simp: lower_eq_3 or_else_empty_eq lower_char_iffs)

lemma original_name_iff:
  "endswith (lower (or_else (originalFileName doc) [])) ''.pdf'' \<longleftrightarrow>
     (\<exists>pre a b c. originalFileName doc = Some (pre @ [CHR ''.'', a, b, c])
        \<and> a \<in> {CHR ''p'', CHR ''P''} \<and> b \<in> {CHR ''d'', CHR ''D''} \<and> c \<in> {CHR ''f'', CHR ''F''})"
  by (auto simp: endswith_lower_pdf or_else_empty_eq lower_char_iffs)

lemma documents_loop_at_cap:
  "MAX' \<le> c \<Longrightarrow> documents_loop E cn lv pi MAX' docs c w = (Inr c, w)"
  by (cases docs) auto

lemma select_document_accepts:
  "select_document doc \<noteq> None \<longleftrightarrow>
     lower (or_else (language doc) []) \<in> set [''en'', ''nl'']
     \<and> (lower (or_else (fileType doc) []) = ''pdf''
          \<or> endswith (lower (or_else (originalFileName doc) [])) ''.pdf'')
     \<and> (\<exists>fid. fileDataId doc = Some fid \<and> fid \<noteq> [])"
  by (auto simp: select_document_def Let_def split: option.splits)

lemma select_document_value: "select_document doc = Some fid \<Longrightarrow> fileDataId doc = Some fid"
  by (auto simp: select_document_def Let_def split: option.splits if_splits)

lemma documents_loop_skip:
  "select_document doc = None \<Longrightarrow>
     documents_loop E cn lv pi MAX' (doc # docs) c w = documents_loop E cn lv pi MAX' docs c w"
  by (simp add: documents_loop_at_cap)

text \<open>
  C2. A document is selected for download exactly when its language is \<open>en\<close> or \<open>nl\<close> in any
  mixture of cases, its fileType is \<open>pdf\<close> in any mixture of cases or its originalFileName
  ends with \<open>.pdf\<close> in any mixture of cases, and its fileDataId is present and not empty;
  the identifier selected is then that fileDataId. A document that is not selected is passed
  over: the loop over a list that starts with it does exactly what the loop over the rest of
  the list does, with no request, no write and no error of its own.
\<close>

theorem select_document_iff:
  "(select_document doc \<noteq> None \<longleftrightarrow>
      (\<exists>a b. language doc = Some [a, b] \<and>
         ((a \<in> {CHR ''e'', CHR ''E''} \<and> b \<in> {CHR ''n'', CHR ''N''})
          \<or> (a \<in> {CHR ''n'', CHR ''N''} \<and> b \<in> {CHR ''l'', CHR ''L''})))
      \<and> ((\<exists>a b c. fileType doc = Some [a, b, c] \<and> a \<in> {CHR ''p'', CHR ''P''}
             \<and> b \<in> {CHR ''d'', CHR ''D''} \<and> c \<in> {CHR ''f'', CHR ''F''})
          \<or> (\<exists>pre a b c. originalFileName doc = Some (pre @ [CHR ''.'', a, b, c])
             \<and> a \<in> {CHR ''p'', CHR ''P''} \<and> b \<in> {CHR ''d'', CHR ''D''}
             \<and> c \<in> {CHR ''f'', CHR ''F''}))
      \<and> (\<exists>fid. fileDataId doc = Some fid \<and> fid \<noteq> []))
   \<and> (select_document doc \<noteq> None \<longrightarrow> select_document doc = fileDataId doc)
   \<and> (select_document doc = None \<longrightarrow>
        documents_loop E company_name lei_v publication_iso MAX' (doc # documents) download_count w
          = documents_loop E company_name lei_v publication_iso MAX' documents download_count w)"
proof -
  have 1: "select_document doc \<noteq> None \<longrightarrow> select_document doc = fileDataId doc"
    using select_document_value[of doc] by auto
  show ?thesis
    unfolding select_document_accepts lang_iff file_type_iff original_name_iff
    using 1 documents_loop_skip[of doc E company_name lei_v publication_iso MAX' documents download_count w]
    unfolding select_document_accepts lang_iff file_type_iff original_name_iff
    by blast
qed

lemmas eval_select = select_document_def or_else_def lower_def lower_char_def isupper_def
  endswith_def

theorem select_document_iff_witness:
  "select_document doc_en \<noteq> None \<and> select_document doc_en = fileDataId doc_en
   \<and> select_document doc_fr = None
   \<and> documents_loop (example_env None) ''A'' ''B'' ''2020-01-01'' 5 [doc_fr, doc_en] 0 empty_world
       = documents_loop (example_env None) ''A'' ''B'' ''2020-01-01'' 5 [doc_en] 0 empty_world"
proof -
  have en: "select_document doc_en \<noteq> None"
    by (simp add: doc_en_def eval_select)
  have fr: "select_document doc_fr = None"
    by (simp add: doc_fr_def eval_select)
  show ?thesis
    using en fr select_document_iff[of doc_en]
      select_document_iff[of doc_fr "example_env None" "''A''" "''B''" "''2020-01-01''" 5 "[doc_en]"
        0 empty_world]
    by blast
qed

lemmas eval_run =
  download_for_issuer_def fetch_stori_results_def post_json_def download_file_def
  make_search_payload_def mkdir_def write_file_def path_exists_def path_join_def
  resolve_output_path_def DOWNLOADS_DIR_def item_documents_def example_env_def empty_world_def
  Let_def

text \<open>
  C3. For a filing item without a publication date the caller passes the literal
  \<open>UNKNOWN_DATE\<close> as the time stamp, and \<open>build_output_filename\<close> then cuts it at its
  first \<open>T\<close>: the date part of the file written is \<open>UNKNOWN_DA\<close>, not \<open>UNKNOWN_DATE\<close>.
\<close>

theorem absent_date_filename:
  "date_part_of (or_else (datePublication item_no_date) ''UNKNOWN_DATE'') = ''UNKNOWN_DA''
   \<and> download_for_issuer (example_env (Some [item_no_date])) ''c1'' ''t1'' ''2011-01-01'' 5 0
         empty_world
       = (Inr 1,
          \<lparr>files = [(''downloads/ACME_L1_AnnualReport_UNKNOWN_DA.pdf'', ''%PDF x'')],
           trace = [SearchRequest (make_search_payload ''c1'' ''t1'' ''2011-01-01''),
                    MakeDir ''downloads'', DownloadRequest ''x'',
                    WriteFile ''downloads/ACME_L1_AnnualReport_UNKNOWN_DA.pdf'' ''%PDF x'']\<rparr>)"
proof -
  have 1: "date_part_of (or_else (datePublication item_no_date) ''UNKNOWN_DATE'') = ''UNKNOWN_DA''"
    by (simp add: item_no_date_def or_else_def date_part_of_def split_def)
  have 2: "select_document doc_en = Some ''x''"
    by (simp add: doc_en_def eval_select)
  have 3: "build_output_filename ''Acme'' ''L1'' ''UNKNOWN_DATE'' = ''ACME_L1_AnnualReport_UNKNOWN_DA.pdf''"
    by (simp add: eval_filename)
  have 4: "download_for_issuer (example_env (Some [item_no_date])) ''c1'' ''t1'' ''2011-01-01'' 5 0
         empty_world
       = (Inr 1,
          \<lparr>files = [(''downloads/ACME_L1_AnnualReport_UNKNOWN_DA.pdf'', ''%PDF x'')],
           trace = [SearchRequest (make_search_payload ''c1'' ''t1'' ''2011-01-01''),
                    MakeDir ''downloads'', DownloadRequest ''x'',
                    WriteFile ''downloads/ACME_L1_AnnualReport_UNKNOWN_DA.pdf'' ''%PDF x'']\<rparr>)"
    by (simp add: eval_run item_no_date_def or_else_def 2 3)
  show ?thesis
    using 1 4 by blast
qed

lemma download_ids_append: "download_ids (xs @ ys) = download_ids xs @ download_ids ys"
  by (induction xs rule: download_ids.induct) auto

text \<open>
  C7. When the search answers with a result whose \<open>storiResultItems\<close> is absent or null, the
  routine returns the counter it was given, without an error; no file is written and no
  download is requested.
\<close>

theorem missing_items_no_downloads:
  assumes "fetch_stori_results E (trace w) (make_search_payload company_id document_type_id publication_start)
             = Inr results"
    and "storiResultItems results = None"
  shows "\<exists>w'. download_for_issuer E company_id document_type_id publication_start max_downloads
                 already_downloaded w = (Inr already_downloaded, w')
              \<and> files w' = files w
              \<and> download_ids (trace w') = download_ids (trace w)"
  using assms
  by (simp add: download_for_issuer_def Let_def or_else_def mkdir_def download_ids_append)

theorem missing_items_no_downloads_witness:
  "\<exists>w'. download_for_issuer (example_env None) ''c1'' ''t1'' ''2011-01-01'' 5 0 empty_world = (Inr 0, w')
         \<and> files w' = files empty_world
         \<and> download_ids (trace w') = download_ids (trace empty_world)"
proof -
  have h: "fetch_stori_results (example_env None) (trace empty_world)
             (make_search_payload ''c1'' ''t1'' ''2011-01-01'')
           = Inr \<lparr>resultCount = Some 1, storiResultItems = None\<rparr>"
    by (simp add: fetch_stori_results_def post_json_def example_env_def)
  show ?thesis
    by (rule missing_items_no_downloads[OF h]) simp
qed

lemma normalize_loop_ok:
  assumes "\<forall>r \<in> set raw. raw_companyId r \<noteq> None"
  shows "normalize_loop raw acc =
     Inr (acc @ map (\<lambda>r. \<lparr>issuer_id = the (raw_companyId r),
                          issuer_name = or_else (raw_abbreviation r) ''UNKNOWN''\<rparr>) raw)"
  using assms by (induction raw arbitrary: acc) auto

lemma normalize_loop_error:
  assumes "\<exists>r \<in> set raw. raw_companyId r = None"
  shows "normalize_loop raw acc = Inl (KeyError ''companyId'')"
  using assms by (induction raw arbitrary: acc) (auto split: option.splits)

text \<open>
  C8. When the cache file exists and parses to a list of raw issuers, each of which has a
  \<open>companyId\<close>, the result is a list of the same length whose i-th entry has the i-th
  raw entry's \<open>companyId\<close> as id and its abbreviation as name, or \<open>UNKNOWN\<close> when the
  abbreviation is absent, null or empty; the world is left as it was. A raw entry without a
  \<open>companyId\<close> makes the subscript raise \<open>KeyError\<close> instead.
\<close>

theorem ensure_issuer_file_normalizes:
  assumes "map_of (files w) path = Some text"
    and "json_loads E text = Inr raw"
  shows "((\<forall>r \<in> set raw. raw_companyId r \<noteq> None) \<longrightarrow>
           (\<exists>issuers. ensure_issuer_file E path w = (Inr issuers, w)
              \<and> normalize_issuer_list raw = Inr issuers
              \<and> length issuers = length raw
              \<and> (\<forall>i < length raw.
                    Some (issuer_id (issuers ! i)) = raw_companyId (raw ! i)
                  \<and> issuer_name (issuers ! i) =
                      (case raw_abbreviation (raw ! i) of
                         None \<Rightarrow> ''UNKNOWN''
                       | Some a \<Rightarrow> if a = [] then ''UNKNOWN'' else a))))
       \<and> ((\<exists>r \<in> set raw. raw_companyId r = None) \<longrightarrow>
            ensure_issuer_file E path w = (Inl (KeyError ''companyId''), w))"
proof (intro conjI impI)
  assume ok: "\<forall>r \<in> set raw. raw_companyId r \<noteq> None"
  let ?out = "map (\<lambda>r. \<lparr>issuer_id = the (raw_companyId r),
                          issuer_name = or_else (raw_abbreviation r) ''UNKNOWN''\<rparr>) raw"
  have n: "normalize_issuer_list raw = Inr ?out"
    using normalize_loop_ok[OF ok, of "[]"] by (simp add: normalize_issuer_list_def)
  have e: "ensure_issuer_file E path w = (Inr ?out, w)"
    using assms n by (simp add: ensure_issuer_file_def)
  have p: "\<forall>i < length raw.
       Some (issuer_id (?out ! i)) = raw_companyId (raw ! i)
     \<and> issuer_name (?out ! i) =
         (case raw_abbreviation (raw ! i) of
            None \<Rightarrow> ''UNKNOWN''
          | Some a \<Rightarrow> if a = [] then ''UNKNOWN'' else a)"
    using ok by (auto simp: or_else_def split: option.splits)
  show "\<exists>issuers. ensure_issuer_file E path w = (Inr issuers, w)
              \<and> normalize_issuer_list raw = Inr issuers
              \<and> length issuers = length raw
              \<and> (\<forall>i < length raw.
                    Some (issuer_id (issuers ! i)) = raw_companyId (raw ! i)
                  \<and> issuer_name (issuers ! i) =
                      (case raw_abbreviation (raw ! i) of
                         None \<Rightarrow> ''UNKNOWN''
                       | Some a \<Rightarrow> if a = [] then ''UNKNOWN'' else a))"
    using n e p by (intro exI[of _ ?out]) simp
next
  assume "\<exists>r \<in> set raw. raw_companyId r = None"
  then have "normalize_issuer_list raw = Inl (KeyError ''companyId'')"
    by (simp add: normalize_issuer_list_def normalize_loop_error)
  then show "ensure_issuer_file E path w = (Inl (KeyError ''companyId''), w)"
    using assms by (simp add: ensure_issuer_file_def)
qed

theorem ensure_issuer_file_normalizes_witness:
  "(\<exists>issuers. ensure_issuer_file (example_env None) issuers_file cached_world = (Inr issuers, cached_world)
      \<and> normalize_issuer_list default_raw = Inr issuers
      \<and> length issuers = length default_raw
      \<and> (\<forall>i < length default_raw.
            Some (issuer_id (issuers ! i)) = raw_companyId (default_raw ! i)
          \<and> issuer_name (issuers ! i) =
              (case raw_abbreviation (default_raw ! i) of
                 None \<Rightarrow> ''UNKNOWN''
               | Some a \<Rightarrow> if a = [] then ''UNKNOWN'' else a)))
   \<and> ensure_issuer_file ((example_env None)\<lparr>json_loads := \<lambda>text. Inr [raw_without_id]\<rparr>)
         issuers_file cached_world
       = (Inl (KeyError ''companyId''), cached_world)"
proof -
  have f: "map_of (files cached_world) issuers_file = Some ''[default]''"
    by (simp add: cached_world_def)
  have l1: "json_loads (example_env None) ''[default]'' = Inr default_raw"
    by (simp add: example_env_def)
  have l2: "json_loads ((example_env None)\<lparr>json_loads := \<lambda>text. Inr [raw_without_id]\<rparr>) ''[default]''
              = Inr [raw_without_id]"
    by simp
  have ok: "\<forall>r \<in> set default_raw. raw_companyId r \<noteq> None"
    by (simp add: default_raw_def)
  have bad: "\<exists>r \<in> set [raw_without_id]. raw_companyId r = None"
    by (simp add: raw_without_id_def)
  show ?thesis
    using ensure_issuer_file_normalizes[OF f l1] ensure_issuer_file_normalizes[OF f l2] ok bad
    by blast
qed

section \<open>The version suffix\<close>

lemma version_loop_stop:
  "\<not> path_exists w output_path \<Longrightarrow> version_loop w stem ext output_path counter = output_path"
  by (simp add: version_loop.simps)

lemma version_loop_step:
  "path_exists w output_path \<Longrightarrow>
     version_loop w stem ext output_path counter
       = version_loop w stem ext (versioned_path stem ext counter) (counter + 1)"
  by (subst version_loop.simps) simp

lemma version_loop_first_free:
  assumes "path_exists w output_path"
  shows "\<exists>k \<ge> counter.
           version_loop w stem ext output_path counter = versioned_path stem ext k
         \<and> \<not> path_exists w (versioned_path stem ext k)
         \<and> (\<forall>j. counter \<le> j \<and> j < k \<longrightarrow> path_exists w (versioned_path stem ext j))"
  using assms
proof (induction w stem ext output_path counter rule: version_loop.induct)
  case (1 w stem ext output_path counter)
  note step = version_loop_step[OF "1.prems", of stem ext counter]
  show ?case
  proof (cases "path_exists w (versioned_path stem ext counter)")
    case False
    have "version_loop w stem ext output_path counter = versioned_path stem ext counter"
      using step version_loop_stop[OF False] by simp
    then show ?thesis
      using False by (intro exI[of _ counter]) auto
  next
    case True
    from "1.IH"[OF "1.prems" True]
    obtain k where k: "counter + 1 \<le> k"
        "version_loop w stem ext (versioned_path stem ext counter) (counter + 1)
           = versioned_path stem ext k"
        "\<not> path_exists w (versioned_path stem ext k)"
        "\<forall>j. counter + 1 \<le> j \<and> j < k \<longrightarrow> path_exists w (versioned_path stem ext j)"
      by blast
    have "\<forall>j. counter \<le> j \<and> j < k \<longrightarrow> path_exists w (versioned_path stem ext j)"
    proof (intro allI impI)
      fix j assume j: "counter \<le> j \<and> j < k"
      show "path_exists w (versioned_path stem ext j)"
      proof (cases "j = counter")
        case True
        then show ?thesis using \<open>path_exists w (versioned_path stem ext counter)\<close> by simp
      next
        case False
        then have "counter + 1 \<le> j \<and> j < k" using j by simp
        then show ?thesis using k(4) by blast
      qed
    qed
    then show ?thesis
      using k step by (intro exI[of _ k]) simp
  qed
qed

lemma rpartition_pdf: "rpartition CHR ''.'' (xs @ ''.pdf'') = (xs, ''.'', ''pdf'')"
  by (simp add: rpartition_def)

lemma rpartition_build:
  "rpartition CHR ''.'' (build_output_filename company_name lei_v publication_iso) =
     (upper (sanitize_for_filename company_name) @ ''_'' @ sanitize_for_filename lei_v
        @ ''_AnnualReport_'' @ date_part_of publication_iso, ''.'', ''pdf'')"
proof -
  have "build_output_filename company_name lei_v publication_iso =
      (upper (sanitize_for_filename company_name) @ ''_'' @ sanitize_for_filename lei_v
        @ ''_AnnualReport_'' @ date_part_of publication_iso) @ ''.pdf''"
    by (simp add: build_output_filename_def)
  then show ?thesis
    by (simp only: rpartition_pdf)
qed

text \<open>
  C5. When a file exists at the base path, the path resolved is the stem, \<open>_v\<close>, a version
  number \<open>k\<close> of at least 2, a dot and the extension, where stem and extension are the parts
  of the base name before and after its last dot; no file exists at the resolved path, a file
  exists at the path of every version from 2 up to \<open>k - 1\<close>, and the resolved path is not the
  base path. Every test of existence reads the files of the world at that moment. For a name
  built by \<open>build_output_filename\<close> the extension is \<open>pdf\<close> and the stem is the name
  without \<open>.pdf\<close>; the versions are rendered \<open>2\<close>, \<open>3\<close>, ..., \<open>10\<close>, ...
\<close>

theorem collision_resolution:
  assumes "path_exists w (path_join DOWNLOADS_DIR output_name)"
    and "rpartition CHR ''.'' output_name = (stem, dot, ext)"
  shows "(\<exists>k \<ge> 2.
            resolve_output_path w output_name
              = path_join DOWNLOADS_DIR (stem @ ''_v'' @ str_nat k @ ''.'' @ ext)
          \<and> (\<forall>j. 2 \<le> j \<and> j < k \<longrightarrow>
                path_exists w (path_join DOWNLOADS_DIR (stem @ ''_v'' @ str_nat j @ ''.'' @ ext))))
       \<and> \<not> path_exists w (resolve_output_path w output_name)
       \<and> resolve_output_path w output_name \<noteq> path_join DOWNLOADS_DIR output_name
       \<and> rpartition CHR ''.'' (build_output_filename company_name lei_v publication_iso) =
           (upper (sanitize_for_filename company_name) @ ''_'' @ sanitize_for_filename lei_v
              @ ''_AnnualReport_'' @ date_part_of publication_iso, ''.'', ''pdf'')
       \<and> str_nat 2 = ''2'' \<and> str_nat 3 = ''3'' \<and> str_nat 10 = ''10''"
proof -
  have r: "resolve_output_path w output_name
             = version_loop w stem ext (path_join DOWNLOADS_DIR output_name) 2"
    using assms by (simp add: resolve_output_path_def)
  from version_loop_first_free[OF assms(1), of 2 stem ext]
  obtain k where k: "2 \<le> k"
      "version_loop w stem ext (path_join DOWNLOADS_DIR output_name) 2 = versioned_path stem ext k"
      "\<not> path_exists w (versioned_path stem ext k)"
      "\<forall>j. 2 \<le> j \<and> j < k \<longrightarrow> path_exists w (versioned_path stem ext j)"
    by blast
  have 1: "\<exists>k \<ge> 2.
            resolve_output_path w output_name
              = path_join DOWNLOADS_DIR (stem @ ''_v'' @ str_nat k @ ''.'' @ ext)
          \<and> (\<forall>j. 2 \<le> j \<and> j < k \<longrightarrow>
                path_exists w (path_join DOWNLOADS_DIR (stem @ ''_v'' @ str_nat j @ ''.'' @ ext)))"
    using k r by (intro exI[of _ k]) (simp add: versioned_path_def)
  have 2: "\<not> path_exists w (resolve_output_path w output_name)"
    using k r by simp
  have 3: "resolve_output_path w output_name \<noteq> path_join DOWNLOADS_DIR output_name"
    using 2 assms(1) by auto
  have 4: "str_nat 2 = ''2'' \<and> str_nat 3 = ''3'' \<and> str_nat 10 = ''10''"
    by (simp add: str_nat.simps digit_char_def)
  show ?thesis
    using 1 2 3 4 rpartition_build[of company_name lei_v publication_iso] by blast
qed

theorem collision_resolution_witness:
  "(\<exists>k \<ge> 2.
      resolve_output_path crowded_world ''A_B_AnnualReport_2020-01-01.pdf''
        = path_join DOWNLOADS_DIR (''A_B_AnnualReport_2020-01-01'' @ ''_v'' @ str_nat k @ ''.'' @ ''pdf'')
    \<and> (\<forall>j. 2 \<le> j \<and> j < k \<longrightarrow>
          path_exists crowded_world
            (path_join DOWNLOADS_DIR (''A_B_AnnualReport_2020-01-01'' @ ''_v'' @ str_nat j @ ''.'' @ ''pdf''))))
   \<and> \<not> path_exists crowded_world (resolve_output_path crowded_world ''A_B_AnnualReport_2020-01-01.pdf'')
   \<and> resolve_output_path crowded_world ''A_B_AnnualReport_2020-01-01.pdf''
       \<noteq> path_join DOWNLOADS_DIR ''A_B_AnnualReport_2020-01-01.pdf''"
proof -
  have h1: "path_exists crowded_world (path_join DOWNLOADS_DIR ''A_B_AnnualReport_2020-01-01.pdf'')"
    by (simp add: path_exists_def crowded_world_def path_join_def DOWNLOADS_DIR_def)
  have h2: "rpartition CHR ''.'' ''A_B_AnnualReport_2020-01-01.pdf''
              = (''A_B_AnnualReport_2020-01-01'', ''.'', ''pdf'')"
    by (simp add: rpartition_def)
  show ?thesis
    using collision_resolution[OF h1 h2] by blast
qed

section \<open>The cap and the order of downloads\<close>

lemma requests_below_cap_append:
  "requests_below_cap N c (xs @ ys) \<longleftrightarrow>
     requests_below_cap N c xs \<and> requests_below_cap N (c + int (length (download_ids xs))) ys"
  by (induction N c xs rule: requests_below_cap.induct) (auto simp: algebra_simps)

lemma requests_below_cap_count:
  "requests_below_cap N c evs \<Longrightarrow> c \<le> N \<Longrightarrow> c + int (length (download_ids evs)) \<le> N"
  by (induction N c evs rule: requests_below_cap.induct) auto

lemma selected_ids_simps [simp]:
  "selected_ids [] = []"
  "selected_ids (doc # docs) =
     (case select_document doc of None \<Rightarrow> selected_ids docs | Some fid \<Rightarrow> fid # selected_ids docs)"
  by (simp_all add: selected_ids_def List.map_filter_simps split: option.split)

lemma selected_ids_append: "selected_ids (xs @ ys) = selected_ids xs @ selected_ids ys"
  by (induction xs) (auto split: option.splits)

lemma run_effect_stop: "N \<le> c \<Longrightarrow> run_effect N c expected w (Inr c, w)"
  by (simp add: run_effect_def)

lemma run_effect_done: "run_effect N c [] w (Inr c, w)"
  by (simp add: run_effect_def)

lemma run_effect_seq:
  assumes c: "c < N"
    and pre: "requests_below_cap N c evs0" "download_ids evs0 = ids0" "trace w1 = trace w @ evs0"
    and len: "length ids0 \<le> 1"
    and rest: "run_effect N (c + int (length ids0)) expected w1 res"
  shows "run_effect N c (ids0 @ expected) w res"
proof -
  from rest obtain evs where evs: "trace (snd res) = trace w1 @ evs"
      "requests_below_cap N (c + int (length ids0)) evs"
      "prefix (download_ids evs) (take (nat (N - (c + int (length ids0)))) expected)"
      "\<forall>c'. fst res = Inr c' \<longrightarrow>
              c' = c + int (length ids0) + int (length (download_ids evs))
            \<and> download_ids evs = take (nat (N - (c + int (length ids0)))) expected"
    unfolding run_effect_def by blast
  have n: "nat (N - (c + int (length ids0))) = nat (N - c) - length ids0"
    by simp
  have t: "take (nat (N - c)) (ids0 @ expected) = ids0 @ take (nat (N - c) - length ids0) expected"
    using c len by simp
  show ?thesis
    unfolding run_effect_def
  proof (intro exI[of _ "evs0 @ evs"] conjI allI impI)
    show "trace (snd res) = trace w @ evs0 @ evs"
      using evs(1) pre(3) by simp
    show "requests_below_cap N c (evs0 @ evs)"
      using pre(1,2) evs(2) by (simp add: requests_below_cap_append)
    show "prefix (download_ids (evs0 @ evs)) (take (nat (N - c)) (ids0 @ expected))"
      using evs(3) pre(2) unfolding t n by (simp add: download_ids_append)
  next
    fix c' assume r: "fst res = Inr c'"
    show "c' = c + int (length (download_ids (evs0 @ evs)))"
      using evs(4) r pre(2) by (simp add: download_ids_append)
    show "download_ids (evs0 @ evs) = take (nat (N - c)) (ids0 @ expected)"
      using evs(4) r pre(2) unfolding t n by (simp add: download_ids_append)
  qed
qed

lemma run_effect_fail:
  assumes "c < N" and "trace w1 = trace w @ [DownloadRequest fid]"
  shows "run_effect N c (fid # expected) w (Inl e, w1)"
  unfolding run_effect_def using assms
  by (intro exI[of _ "[DownloadRequest fid]"]) (auto simp: take_Cons' )

lemma documents_loop_effect:
  "run_effect N c (selected_ids docs) w (documents_loop E cn lv pi N docs c w)"
proof (induction docs arbitrary: c w)
  case Nil
  show ?case by (simp add: run_effect_done)
next
  case (Cons doc docs)
  show ?case
  proof (cases "N \<le> c")
    case True
    then show ?thesis by (simp add: run_effect_stop)
  next
    case False
    then have c: "c < N" by simp
    show ?thesis
    proof (cases "select_document doc")
      case None
      then show ?thesis using c Cons.IH[of c w] by simp
    next
      case (Some fid)
      let ?w1 = "w\<lparr>trace := trace w @ [DownloadRequest fid]\<rparr>"
      show ?thesis
      proof (cases "download_file E (trace w) fid")
        case (Inl e)
        then show ?thesis
          using c Some by (simp add: Let_def run_effect_fail)
      next
        case (Inr file_bytes)
        let ?p = "resolve_output_path w (build_output_filename cn lv pi)"
        let ?w2 = "write_file ?p file_bytes ?w1"
        have "run_effect N c ([fid] @ selected_ids docs) w
                (documents_loop E cn lv pi N docs (c + 1) ?w2)"
        proof (rule run_effect_seq[OF c, where ?evs0.0 = "[DownloadRequest fid, WriteFile ?p file_bytes]"
              and ?w1.0 = ?w2])
          show "requests_below_cap N c [DownloadRequest fid, WriteFile ?p file_bytes]"
            using c by simp
          show "download_ids [DownloadRequest fid, WriteFile ?p file_bytes] = [fid]"
            by simp
          show "trace ?w2 = trace w @ [DownloadRequest fid, WriteFile ?p file_bytes]"
            by (simp add: write_file_def)
          show "length [fid] \<le> 1" by simp
          show "run_effect N (c + int (length [fid])) (selected_ids docs) ?w2
                 (documents_loop E cn lv pi N docs (c + 1) ?w2)"
            using Cons.IH[of "c + 1" ?w2] by simp
        qed
        then show ?thesis
          using c Some Inr by (simp add: Let_def)
      qed
    qed
  qed
qed

lemma run_effect_chain:
  assumes first: "run_effect N c A w (r1, w1)"
    and ok: "\<And>c1. r1 = Inr c1 \<Longrightarrow> run_effect N c1 B w1 res"
    and err: "\<And>e. r1 = Inl e \<Longrightarrow> res = (Inl e, w1)"
  shows "run_effect N c (A @ B) w res"
proof -
  from first obtain evs1 where e1: "trace w1 = trace w @ evs1"
      "requests_below_cap N c evs1"
      "prefix (download_ids evs1) (take (nat (N - c)) A)"
      "\<forall>c'. r1 = Inr c' \<longrightarrow>
              c' = c + int (length (download_ids evs1))
            \<and> download_ids evs1 = take (nat (N - c)) A"
    unfolding run_effect_def by auto
  have t: "take (nat (N - c)) (A @ B) = take (nat (N - c)) A @ take (nat (N - c) - length A) B"
    by simp
  show ?thesis
  proof (cases r1)
    case (Inl e)
    have "prefix (download_ids evs1) (take (nat (N - c)) (A @ B))"
      using e1(3) unfolding t by (rule prefix_prefix)
    then show ?thesis
      unfolding run_effect_def using err[OF Inl] e1(1,2)
      by (intro exI[of _ evs1]) simp
  next
    case (Inr c1)
    have c1: "c1 = c + int (length (download_ids evs1))"
      and ids1: "download_ids evs1 = take (nat (N - c)) A"
      using e1(4) Inr by auto
    from ok[OF Inr] obtain evs2 where e2: "trace (snd res) = trace w1 @ evs2"
        "requests_below_cap N c1 evs2"
        "prefix (download_ids evs2) (take (nat (N - c1)) B)"
        "\<forall>c'. fst res = Inr c' \<longrightarrow>
              c' = c1 + int (length (download_ids evs2))
            \<and> download_ids evs2 = take (nat (N - c1)) B"
      unfolding run_effect_def by auto
    have n: "nat (N - c1) = nat (N - c) - length A \<or> (length A > nat (N - c) \<and> nat (N - c1) = 0)"
      unfolding c1 ids1 by (simp add: min_def) linarith
    have tb: "take (nat (N - c1)) B = take (nat (N - c) - length A) B"
      using n by auto
    show ?thesis
      unfolding run_effect_def
    proof (intro exI[of _ "evs1 @ evs2"] conjI allI impI)
      show "trace (snd res) = trace w @ evs1 @ evs2"
        using e1(1) e2(1) by simp
      show "requests_below_cap N c (evs1 @ evs2)"
        using e1(2) e2(2) c1 by (simp add: requests_below_cap_append)
      show "prefix (download_ids (evs1 @ evs2)) (take (nat (N - c)) (A @ B))"
        using e2(3) unfolding t tb by (simp add: download_ids_append ids1)
    next
      fix c' assume r: "fst res = Inr c'"
      show "c' = c + int (length (download_ids (evs1 @ evs2)))"
        using e2(4) r c1 by (simp add: download_ids_append)
      show "download_ids (evs1 @ evs2) = take (nat (N - c)) (A @ B)"
        using e2(4) r unfolding t tb by (simp add: download_ids_append ids1)
    qed
  qed
qed

lemma expected_ids_Cons:
  "expected_ids (item # items) = selected_ids (item_documents item) @ expected_ids items"
  by (simp add: expected_ids_def selected_ids_append)

lemma items_loop_effect:
  "run_effect N c (expected_ids items) w (items_loop E N items c w)"
proof (induction items arbitrary: c w)
  case Nil
  show ?case by (simp add: run_effect_done expected_ids_def)
next
  case (Cons item items)
  show ?case
  proof (cases "N \<le> c")
    case True
    then show ?thesis by (simp add: run_effect_stop)
  next
    case False
    let ?cn = "or_else (companyName item) ''UNKNOWN_COMPANY''"
    let ?lv = "or_else (lei item) ''NO_LEI''"
    let ?pi = "or_else (datePublication item) ''UNKNOWN_DATE''"
    obtain r1 w1 where d: "documents_loop E ?cn ?lv ?pi N (item_documents item) c w = (r1, w1)"
      by (cases "documents_loop E ?cn ?lv ?pi N (item_documents item) c w")
    have first: "run_effect N c (selected_ids (item_documents item)) w (r1, w1)"
      using documents_loop_effect[of N c "item_documents item" w E ?cn ?lv ?pi] d by simp
    have res: "items_loop E N (item # items) c w =
        (case r1 of Inl e \<Rightarrow> (Inl e, w1) | Inr c1 \<Rightarrow> items_loop E N items c1 w1)"
      using False d by (simp add: Let_def split: sum.splits)
    show ?thesis
      unfolding expected_ids_Cons
    proof (rule run_effect_chain[OF first])
      fix c1 assume "r1 = Inr c1"
      then show "run_effect N c1 (expected_ids items) w1 (items_loop E N (item # items) c w)"
        using res Cons.IH[of c1 w1] by simp
    next
      fix e assume "r1 = Inl e"
      then show "items_loop E N (item # items) c w = (Inl e, w1)"
        using res by simp
    qed
  qed
qed

lemma download_for_issuer_effect:
  "run_effect N c
     (case fetch_stori_results E (trace w) (make_search_payload cid dt ps) of
        Inl e \<Rightarrow> []
      | Inr results \<Rightarrow> expected_ids (or_else (storiResultItems results) []))
     w (download_for_issuer E cid dt ps N c w)"
proof (cases "N \<le> c")
  case True
  then show ?thesis by (simp add: download_for_issuer_def run_effect_stop)
next
  case False
  then have c: "c < N" by simp
  let ?p = "make_search_payload cid dt ps"
  let ?w1 = "w\<lparr>trace := trace w @ [SearchRequest ?p]\<rparr>"
  show ?thesis
  proof (cases "fetch_stori_results E (trace w) ?p")
    case (Inl e)
    have "run_effect N c [] w (Inl e, ?w1)"
      unfolding run_effect_def using c by (intro exI[of _ "[SearchRequest ?p]"]) simp
    then show ?thesis
      using c Inl by (simp add: download_for_issuer_def Let_def)
  next
    case (Inr results)
    let ?items = "or_else (storiResultItems results) []"
    let ?w2 = "mkdir DOWNLOADS_DIR ?w1"
    have "run_effect N c ([] @ expected_ids ?items) w (items_loop E N ?items c ?w2)"
    proof (rule run_effect_seq[OF c, where ?evs0.0 = "[SearchRequest ?p, MakeDir DOWNLOADS_DIR]"
          and ?w1.0 = ?w2])
      show "requests_below_cap N c [SearchRequest ?p, MakeDir DOWNLOADS_DIR]"
        using c by simp
      show "download_ids [SearchRequest ?p, MakeDir DOWNLOADS_DIR] = []"
        by simp
      show "trace ?w2 = trace w @ [SearchRequest ?p, MakeDir DOWNLOADS_DIR]"
        by (simp add: mkdir_def)
      show "length ([] :: string list) \<le> 1" by simp
      show "run_effect N (c + int (length ([] :: string list))) (expected_ids ?items) ?w2
              (items_loop E N ?items c ?w2)"
        using items_loop_effect[of N c ?items ?w2 E] by simp
    qed
    then show ?thesis
      using c Inr by (simp add: download_for_issuer_def Let_def)
  qed
qed

lemma run_effect_cap: "run_effect N c expected w res \<Longrightarrow> cap_effect N c w res"
  unfolding run_effect_def cap_effect_def by blast

lemma cap_effect_chain:
  assumes first: "cap_effect N c w (r1, w1)"
    and ok: "\<And>c1. r1 = Inr c1 \<Longrightarrow> cap_effect N c1 w1 res"
    and err: "\<And>e. r1 = Inl e \<Longrightarrow> res = (Inl e, w1)"
  shows "cap_effect N c w res"
proof -
  from first obtain evs1 where e1: "trace w1 = trace w @ evs1"
      "requests_below_cap N c evs1"
      "\<forall>c'. r1 = Inr c' \<longrightarrow> c' = c + int (length (download_ids evs1))"
    unfolding cap_effect_def by auto
  show ?thesis
  proof (cases r1)
    case (Inl e)
    then show ?thesis
      unfolding cap_effect_def using err[OF Inl] e1(1,2)
      by (intro exI[of _ evs1]) simp
  next
    case (Inr c1)
    have c1: "c1 = c + int (length (download_ids evs1))"
      using e1(3) Inr by auto
    from ok[OF Inr] obtain evs2 where e2: "trace (snd res) = trace w1 @ evs2"
        "requests_below_cap N c1 evs2"
        "\<forall>c'. fst res = Inr c' \<longrightarrow> c' = c1 + int (length (download_ids evs2))"
      unfolding cap_effect_def by auto
    show ?thesis
      unfolding cap_effect_def
      using e1(1,2) e2 c1
      by (intro exI[of _ "evs1 @ evs2"])
         (auto simp: requests_below_cap_append download_ids_append)
  qed
qed

lemma issuers_loop_effect: "cap_effect N c w (issuers_loop E N issuers c w)"
proof (induction issuers arbitrary: c w)
  case Nil
  show ?case by (simp add: cap_effect_def)
next
  case (Cons iss issuers)
  show ?case
  proof (cases "N \<le> c")
    case True
    then show ?thesis by (simp add: cap_effect_def)
  next
    case False
    obtain r1 w1 where d:
      "download_for_issuer E (issuer_id iss) DOCUMENT_TYPE_ANNUAL ''2011-01-01'' N c w = (r1, w1)"
      by (cases "download_for_issuer E (issuer_id iss) DOCUMENT_TYPE_ANNUAL ''2011-01-01'' N c w")
    have first: "cap_effect N c w (r1, w1)"
      using run_effect_cap[OF download_for_issuer_effect[of N c E w "issuer_id iss"
            DOCUMENT_TYPE_ANNUAL "''2011-01-01''"]] d by simp
    have res: "issuers_loop E N (iss # issuers) c w =
        (case r1 of Inl e \<Rightarrow> (Inl e, w1) | Inr c1 \<Rightarrow> issuers_loop E N issuers c1 w1)"
      using False d by (simp split: sum.splits)
    show ?thesis
    proof (rule cap_effect_chain[OF first])
      fix c1 assume "r1 = Inr c1"
      then show "cap_effect N c1 w1 (issuers_loop E N (iss # issuers) c w)"
        using res Cons.IH[of c1 w1] by simp
    next
      fix e assume "r1 = Inl e"
      then show "issuers_loop E N (iss # issuers) c w = (Inl e, w1)"
        using res by simp
    qed
  qed
qed

lemma issuers_loop_at_cap: "N \<le> c \<Longrightarrow> issuers_loop E N issuers c w = (Inr c, w)"
  by (cases issuers) auto

lemma normalize_default_raw:
  "normalize_issuer_list default_raw =
     Inr [\<lparr>issuer_id = ''02285e3c-71e9-496a-8d47-d1408131c44b'', issuer_name = ''ACACIA PHARMA GROUP''\<rparr>]"
  by (simp add: normalize_issuer_list_def default_raw_def or_else_def)

lemma cap_effect_refl: "cap_effect N c w (Inr c, w)"
  by (simp add: cap_effect_def)

lemma cap_effect_error: "cap_effect N c w (Inl e, w)"
  by (simp add: cap_effect_def)

lemma cap_effect_after_write:
  assumes "cap_effect N c (write_file p content w) res"
  shows "cap_effect N c w res"
proof -
  from assms obtain evs where e: "trace (snd res) = trace (write_file p content w) @ evs"
      "requests_below_cap N c evs"
      "\<forall>c'. fst res = Inr c' \<longrightarrow> c' = c + int (length (download_ids evs))"
    unfolding cap_effect_def by auto
  show ?thesis
    unfolding cap_effect_def using e
    by (intro exI[of _ "WriteFile p content # evs"]) (simp add: write_file_def)
qed

lemma main_effect: "cap_effect MAX_DOWNLOADS 0 w (main E w)"
proof (cases "map_of (files w) issuers_file")
  case None
  let ?w1 = "write_file issuers_file (json_dumps E default_raw) w"
  have "main E w = issuers_loop E MAX_DOWNLOADS
      [\<lparr>issuer_id = ''02285e3c-71e9-496a-8d47-d1408131c44b'', issuer_name = ''ACACIA PHARMA GROUP''\<rparr>]
      0 ?w1"
    using None by (simp add: main_def ensure_issuer_file_def normalize_default_raw
        del: issuers_loop.simps)
  then show ?thesis
    using cap_effect_after_write[OF issuers_loop_effect[of MAX_DOWNLOADS 0 ?w1 E]]
    by (simp del: issuers_loop.simps)
next
  case (Some cached)
  show ?thesis
  proof (cases "json_loads E cached")
    case (Inl e)
    then show ?thesis
      using Some by (simp add: main_def ensure_issuer_file_def cap_effect_error)
  next
    case (Inr raw)
    show ?thesis
    proof (cases "normalize_issuer_list raw")
      case (Inl e)
      then show ?thesis
        using Some Inr by (simp add: main_def ensure_issuer_file_def cap_effect_error)
    next
      case issuers: (Inr issuers)
      show ?thesis
        using Some Inr issuers issuers_loop_effect[of MAX_DOWNLOADS 0 w E issuers]
        by (simp add: main_def ensure_issuer_file_def cap_effect_refl)
    qed
  qed
qed

text \<open>
  C1. In a run over any list of issuers with any cap \<open>N\<close>, started with the counter at 0,
  every search request and every download request is made while fewer than \<open>N\<close> downloads
  have been requested; so for a cap \<open>N \<ge> 0\<close> at most \<open>N\<close> downloads are requested, also
  when the run ends with an error, and the total returned is the number of downloads. With
  the counter at the cap or above, \<open>download_for_issuer\<close> returns at once and the loop of
  \<open>main\<close> breaks: the world, and with it the trace, is unchanged, so no search is made. The
  same holds for \<open>main\<close> with its cap of 5.
\<close>

theorem cap_enforcement:
  "(\<exists>evs. trace (snd (issuers_loop E N issuers 0 w)) = trace w @ evs
       \<and> requests_below_cap N 0 evs
       \<and> (0 \<le> N \<longrightarrow> int (length (download_ids evs)) \<le> N)
       \<and> (\<forall>total. fst (issuers_loop E N issuers 0 w) = Inr total
             \<longrightarrow> total = int (length (download_ids evs))))
   \<and> (N \<le> c \<longrightarrow>
         download_for_issuer E company_id document_type_id publication_start N c w = (Inr c, w)
       \<and> issuers_loop E N issuers c w = (Inr c, w))
   \<and> (\<exists>evs. trace (snd (main E w)) = trace w @ evs
       \<and> requests_below_cap MAX_DOWNLOADS 0 evs
       \<and> int (length (download_ids evs)) \<le> MAX_DOWNLOADS)"
proof (intro conjI)
  from issuers_loop_effect[of N 0 w E issuers]
  obtain evs where e: "trace (snd (issuers_loop E N issuers 0 w)) = trace w @ evs"
      "requests_below_cap N 0 evs"
      "\<forall>c'. fst (issuers_loop E N issuers 0 w) = Inr c' \<longrightarrow> c' = 0 + int (length (download_ids evs))"
    unfolding cap_effect_def by auto
  have "0 \<le> N \<longrightarrow> int (length (download_ids evs)) \<le> N"
    using requests_below_cap_count[OF e(2)] by simp
  then show "\<exists>evs. trace (snd (issuers_loop E N issuers 0 w)) = trace w @ evs
       \<and> requests_below_cap N 0 evs
       \<and> (0 \<le> N \<longrightarrow> int (length (download_ids evs)) \<le> N)
       \<and> (\<forall>total. fst (issuers_loop E N issuers 0 w) = Inr total
             \<longrightarrow> total = int (length (download_ids evs)))"
    using e by (intro exI[of _ evs]) simp
next
  show "N \<le> c \<longrightarrow>
         download_for_issuer E company_id document_type_id publication_start N c w = (Inr c, w)
       \<and> issuers_loop E N issuers c w = (Inr c, w)"
    by (simp add: download_for_issuer_def issuers_loop_at_cap)
next
  from main_effect[of w E]
  obtain evs where e: "trace (snd (main E w)) = trace w @ evs"
      "requests_below_cap MAX_DOWNLOADS 0 evs"
    unfolding cap_effect_def by auto
  have "int (length (download_ids evs)) \<le> MAX_DOWNLOADS"
    using requests_below_cap_count[OF e(2)] by (simp add: MAX_DOWNLOADS_def)
  then show "\<exists>evs. trace (snd (main E w)) = trace w @ evs
       \<and> requests_below_cap MAX_DOWNLOADS 0 evs
       \<and> int (length (download_ids evs)) \<le> MAX_DOWNLOADS"
    using e by (intro exI[of _ evs]) simp
qed







theorem cap_enforcement_witness:
  "(\<exists>evs. trace (snd (issuers_loop (example_env (Some [item_two])) 1 two_issuers 0 empty_world))
            = trace empty_world @ evs
       \<and> requests_below_cap 1 0 evs
       \<and> int (length (download_ids evs)) \<le> 1
       \<and> (\<forall>total. fst (issuers_loop (example_env (Some [item_two])) 1 two_issuers 0 empty_world)
               = Inr total
             \<longrightarrow> total = int (length (download_ids evs))))
   \<and> download_for_issuer (example_env (Some [item_two])) ''c2'' DOCUMENT_TYPE_ANNUAL ''2011-01-01''
         1 1 empty_world = (Inr 1, empty_world)
   \<and> issuers_loop (example_env (Some [item_two])) 1 two_issuers 1 empty_world = (Inr 1, empty_world)"
proof -
  have h0: "(0::int) \<le> 1" and h1: "(1::int) \<le> 1"
    by simp_all
  show ?thesis
    using h0 h1
      cap_enforcement[of "example_env (Some [item_two])" 1 two_issuers empty_world 1 "''c2''"
        DOCUMENT_TYPE_ANNUAL "''2011-01-01''"]
    by blast
qed


end
